theory Spec2Isabelle
  imports Complex_Main "HOL-Library.AList"
begin

section \<open>The bisection driver (npm-bisect.js)\<close>

text \<open>
  A timeline entry as the driver holds it after the first install: the package name, the
  version and the publish time. The publish time is a JavaScript \<^verbatim>\<open>Date\<close>; the driver
  keeps only entries with \<^verbatim>\<open>time > goodTime && time <= badTime\<close>, which no invalid
  date passes, so inside the search the time is its millisecond value.
\<close>

record event =
  packageName :: string
  version :: string
  time :: int

text \<open>
  The exceptions and rejected promises that end a run without a result. In the driver: reading
  a field of \<^verbatim>\<open>undefined\<close> (an index outside the timeline) and a rejected
  \<^verbatim>\<open>installDependencies\<close>. In the proxy: calling a method of \<^verbatim>\<open>undefined\<close>, a body that
  \<^verbatim>\<open>JSON.parse\<close> refuses and a rejected \<^verbatim>\<open>performRequest\<close>.
\<close>

datatype error = TypeError | InstallFailed | SyntaxError | RequestFailed

text \<open>\<^verbatim>\<open>Math.round\<close>: the nearest integer, a fraction of exactly one half going up.\<close>

definition Math_round :: "real \<Rightarrow> int" where
  "Math_round x = \<lfloor>x + 1 / 2\<rfloor>"

text \<open>\<^verbatim>\<open>timeline[i]\<close>: \<^verbatim>\<open>undefined\<close> (here \<open>None\<close>) outside the array.\<close>

definition at_index :: "'a list \<Rightarrow> int \<Rightarrow> 'a option" where
  "at_index xs i = (if 0 \<le> i \<and> i < int (length xs) then Some (xs ! nat i) else None)"

text \<open>
  \<^verbatim>\<open>const tryBeforeIndex = Math.round(goodBeforeIndex + (badAfterIndex - goodBeforeIndex) / 2)\<close>
\<close>

definition tryBeforeIndex :: "int \<Rightarrow> int \<Rightarrow> int" where
  "tryBeforeIndex goodBeforeIndex badAfterIndex =
     Math_round (of_int goodBeforeIndex + of_int (badAfterIndex - goodBeforeIndex) / 2)"

text \<open>
  One pass through the body of the \<^verbatim>\<open>while\<close> loop. The outside world (the file system,
  the registry, the user at the prompt) is a state \<open>'w\<close> threaded through the two effectful
  calls: \<open>install cutoff w\<close> is \<^verbatim>\<open>installDependencies({ ignoreNewerThan })\<close> with the
  cutoff in milliseconds, \<open>None\<close> when its promise rejects, and \<open>check w\<close> is
  \<^verbatim>\<open>checkWorkingState()\<close>. The result is the new world and the two indices.
\<close>

definition loop_body ::
  "(int \<Rightarrow> 'w \<Rightarrow> 'w option) \<Rightarrow> ('w \<Rightarrow> bool \<times> 'w) \<Rightarrow> event list \<Rightarrow> 'w \<Rightarrow> int \<Rightarrow> int
     \<Rightarrow> error + ('w \<times> int \<times> int)" where
  "loop_body install check timeline w goodBeforeIndex badAfterIndex =
     (let try = tryBeforeIndex goodBeforeIndex badAfterIndex in
      case at_index timeline try of
        None \<Rightarrow> Inl TypeError
      | Some ev \<Rightarrow>
          (let ignoreNewerThan = time ev - 1 in
           case install ignoreNewerThan w of
             None \<Rightarrow> Inl InstallFailed
           | Some w1 \<Rightarrow>
               (let works = fst (check w1); w2 = snd (check w1) in
                if works then Inr (w2, try, badAfterIndex)
                else Inr (w2, goodBeforeIndex, try - 1))))"

lemma Math_round_half: "Math_round (of_int g + of_int d / 2) = g + (d + 1) div 2"
proof -
  have eq: "(of_int g + of_int d / 2 + 1 / 2 :: real) = of_int (2 * g + d + 1) / of_int 2"
    by (simp add: field_simps)
  have "Math_round (of_int g + of_int d / 2) = \<lfloor>of_int (2 * g + d + 1) / (of_int 2 :: real)\<rfloor>"
    unfolding Math_round_def eq ..
  also have "\<dots> = (2 * g + d + 1) div 2"
    by (rule floor_divide_of_int_eq)
  also have "\<dots> = g + (d + 1) div 2"
    by linarith
  finally show ?thesis .
qed

lemma tryBeforeIndex_eq: "tryBeforeIndex g b = g + (b - g + 1) div 2"
  unfolding tryBeforeIndex_def by (rule Math_round_half)

lemma tryBeforeIndex_bounds:
  assumes "g < b"
  shows "g < tryBeforeIndex g b" and "tryBeforeIndex g b \<le> b"
  using assms unfolding tryBeforeIndex_eq by linarith+

lemma loop_body_shrinks:
  assumes "g < b" and "loop_body install check timeline w g b = Inr (w', g', b')"
  shows "(g < g' \<and> b' = b \<or> g' = g \<and> b' < b) \<and> g' \<le> b'"
  using assms tryBeforeIndex_bounds [OF assms(1)]
  by (auto simp: loop_body_def Let_def split: option.splits if_splits)

text \<open>
  The \<^verbatim>\<open>while (badAfterIndex > goodBeforeIndex)\<close> loop. It is a total function: every
  pass that does not throw brings the two indices closer.
\<close>

function bisect_loop ::
  "(int \<Rightarrow> 'w \<Rightarrow> 'w option) \<Rightarrow> ('w \<Rightarrow> bool \<times> 'w) \<Rightarrow> event list \<Rightarrow> 'w \<Rightarrow> int \<Rightarrow> int
     \<Rightarrow> error + ('w \<times> int \<times> int)" where
  "bisect_loop install check timeline w goodBeforeIndex badAfterIndex =
     (if badAfterIndex > goodBeforeIndex then
        (case loop_body install check timeline w goodBeforeIndex badAfterIndex of
           Inl e \<Rightarrow> Inl e
         | Inr (w', g', b') \<Rightarrow> bisect_loop install check timeline w' g' b')
      else Inr (w, goodBeforeIndex, badAfterIndex))"
  by pat_completeness auto
termination
proof (relation "measure (\<lambda>(install, check, timeline, w, g, b). nat (b - g))", goal_cases)
  case 1
  show ?case by simp
next
  case (2 install check timeline w g b x2 w' y g' b')
  then have "loop_body install check timeline w g b = Inr (w', g', b')" by simp
  from loop_body_shrinks [OF \<open>g < b\<close> this] \<open>g < b\<close> show ?case by auto
qed

declare bisect_loop.simps [simp del]

text \<open>
  What the driver prints at the end: that nothing was published in the interval, or the
  event it blames.
\<close>

datatype report = NoRelevantPackages | ProblemIntroducedBy event

text \<open>
  The tail of the main function, from the emptiness test on the filtered timeline to the
  final message: \<^verbatim>\<open>goodBeforeIndex = 0\<close>, \<^verbatim>\<open>badAfterIndex = timeline.length - 1\<close>, the loop,
  then \<^verbatim>\<open>badEvent = timeline[goodBeforeIndex]\<close>.
\<close>

definition bisect ::
  "(int \<Rightarrow> 'w \<Rightarrow> 'w option) \<Rightarrow> ('w \<Rightarrow> bool \<times> 'w) \<Rightarrow> event list \<Rightarrow> 'w \<Rightarrow> error + ('w \<times> report)" where
  "bisect install check timeline w =
     (if length timeline = 0 then Inr (w, NoRelevantPackages)
      else
        (case bisect_loop install check timeline w 0 (int (length timeline) - 1) of
           Inl e \<Rightarrow> Inl e
         | Inr (w', goodBeforeIndex, badAfterIndex) \<Rightarrow>
             (case at_index timeline goodBeforeIndex of
                None \<Rightarrow> Inl TypeError
              | Some badEvent \<Rightarrow> Inr (w', ProblemIntroducedBy badEvent))))"

text \<open>
  A synthetic oracle for a culprit published at \<open>culpritTime\<close>: the world is the cutoff of
  the last install, the install always succeeds, and the project works exactly when that
  cutoff is before the culprit's publish time.
\<close>

definition synthetic_install :: "int \<Rightarrow> int \<Rightarrow> int option" where
  "synthetic_install cutoff w = Some cutoff"

definition synthetic_check :: "int \<Rightarrow> int \<Rightarrow> bool \<times> int" where
  "synthetic_check culpritTime w = (w < culpritTime, w)"

lemma bisect_loop_exit:
  "bisect_loop install check timeline w g b = Inr (w', g', b') \<Longrightarrow> \<not> g' < b'"
proof (induction install check timeline w g b rule: bisect_loop.induct)
  case (1 install check timeline w g b)
  show ?case
  proof (cases "g < b")
    case True
    with "1.prems" obtain w1 g1 b1 where
      body: "loop_body install check timeline w g b = Inr (w1, g1, b1)"
      and rest: "bisect_loop install check timeline w1 g1 b1 = Inr (w', g', b')"
      by (subst (asm) bisect_loop.simps) (auto split: sum.splits)
    from "1.IH" [OF True body refl refl rest] show ?thesis .
  next
    case False
    with "1.prems" show ?thesis
      by (subst (asm) bisect_loop.simps) simp
  qed
qed

lemma bisect_loop_converges:
  shows "\<forall>cutoff w. \<exists>w1. install cutoff w = Some w1 \<and> fst (check w1) = (cutoff < T)
     \<Longrightarrow> \<forall>i<length timeline. (time (timeline ! i) \<le> T) = (int i \<le> k)
     \<Longrightarrow> 0 \<le> g \<Longrightarrow> g \<le> k \<Longrightarrow> k \<le> b \<Longrightarrow> b < int (length timeline)
     \<Longrightarrow> \<exists>w'. bisect_loop install check timeline w g b = Inr (w', k, k)"
proof (induction install check timeline w g b rule: bisect_loop.induct)
  case (1 install check timeline w g b)
  note orc = "1.prems"(1) and thr = "1.prems"(2)
  show ?case
  proof (cases "g < b")
    case False
    with "1.prems" have "g = k" "b = k" by linarith+
    then show ?thesis by (subst bisect_loop.simps) simp
  next
    case True
    define t where "t = tryBeforeIndex g b"
    from tryBeforeIndex_bounds [OF True] have tb: "g < t" "t \<le> b"
      by (simp_all add: t_def)
    with "1.prems" have inr: "0 \<le> t" "t < int (length timeline)" "nat t < length timeline"
      by linarith+
    then have at: "at_index timeline t = Some (timeline ! nat t)"
      by (simp add: at_index_def)
    from orc obtain w1 where
      w1: "install (time (timeline ! nat t) - 1) w = Some w1"
      and ans: "fst (check w1) = (time (timeline ! nat t) - 1 < T)" by blast
    from thr inr have works: "fst (check w1) = (t \<le> k)"
      unfolding ans by auto
    have body: "loop_body install check timeline w g b =
        (if t \<le> k then Inr (snd (check w1), t, b) else Inr (snd (check w1), g, t - 1))"
      using at w1 works by (simp add: loop_body_def Let_def t_def [symmetric])
    show ?thesis
    proof (cases "t \<le> k")
      case le: True
      with body have b1: "loop_body install check timeline w g b = Inr (snd (check w1), t, b)" by simp
      from "1.IH" [OF True b1 refl refl orc thr inr(1) le "1.prems"(5,6)]
      obtain w' where "bisect_loop install check timeline (snd (check w1)) t b = Inr (w', k, k)" ..
      with True b1 show ?thesis by (subst bisect_loop.simps) simp
    next
      case gt: False
      with body have b1: "loop_body install check timeline w g b = Inr (snd (check w1), g, t - 1)" by simp
      from gt tb "1.prems" have "k \<le> t - 1" "t - 1 < int (length timeline)" by linarith+
      from "1.IH" [OF True b1 refl refl orc thr "1.prems"(3,4) this]
      obtain w' where "bisect_loop install check timeline (snd (check w1)) g (t - 1) = Inr (w', k, k)" ..
      with True b1 show ?thesis by (subst bisect_loop.simps) simp
    qed
  qed
qed

lemma sorted_threshold:
  assumes "sorted (map time timeline)" and "c < length timeline"
  shows "\<exists>j. c \<le> j \<and> j < length timeline \<and> time (timeline ! j) = time (timeline ! c)
           \<and> (\<forall>i<length timeline. (time (timeline ! i) \<le> time (timeline ! c)) = (i \<le> j))"
proof -
  let ?T = "time (timeline ! c)"
  let ?S = "{i. i < length timeline \<and> time (timeline ! i) \<le> ?T}"
  define j where "j = Max ?S"
  have fin: "finite ?S" by simp
  have cS: "c \<in> ?S" using assms(2) by simp
  then have ne: "?S \<noteq> {}" by blast
  have jS: "j \<in> ?S" unfolding j_def by (rule Max_in [OF fin ne])
  have cj: "c \<le> j" unfolding j_def by (rule Max_ge [OF fin cS])
  have mono: "time (timeline ! a) \<le> time (timeline ! b)" if "a \<le> b" "b < length timeline" for a b
    using sorted_nth_mono [OF assms(1), of a b] that by simp
  have tj: "time (timeline ! j) = ?T"
    using jS mono [OF cj] by auto
  have "(time (timeline ! i) \<le> ?T) = (i \<le> j)" if "i < length timeline" for i
  proof
    assume "time (timeline ! i) \<le> ?T"
    with that have "i \<in> ?S" by simp
    then show "i \<le> j" unfolding j_def by (rule Max_ge [OF fin])
  next
    assume "i \<le> j"
    with mono [of i j] jS tj show "time (timeline ! i) \<le> ?T" by simp
  qed
  with cj jS tj show ?thesis by blast
qed

text \<open>
  C7. Every pass through the loop body that is entered with
  \<open>badAfterIndex > goodBeforeIndex\<close> strictly shrinks the interval between the two indices:
  the index to try lies strictly above \<open>goodBeforeIndex\<close> and at most at \<open>badAfterIndex\<close>,
  so the "works" branch strictly increases \<open>goodBeforeIndex\<close> and the other branch strictly
  decreases \<open>badAfterIndex\<close>, whatever the install and the oracle do. The distance
  \<open>badAfterIndex - goodBeforeIndex\<close> is the measure under which \<open>bisect_loop\<close> is a total
  function, and a loop that returns has left the condition \<open>badAfterIndex > goodBeforeIndex\<close>.
\<close>

theorem bisection_shrinks:
  assumes "goodBeforeIndex < badAfterIndex"
  shows "goodBeforeIndex < tryBeforeIndex goodBeforeIndex badAfterIndex
       \<and> tryBeforeIndex goodBeforeIndex badAfterIndex - 1 < badAfterIndex
       \<and> (\<forall>w' g' b'. loop_body install check timeline w goodBeforeIndex badAfterIndex = Inr (w', g', b') \<longrightarrow>
             (g' = tryBeforeIndex goodBeforeIndex badAfterIndex \<and> goodBeforeIndex < g' \<and> b' = badAfterIndex
              \<or> g' = goodBeforeIndex \<and> b' = tryBeforeIndex goodBeforeIndex badAfterIndex - 1 \<and> b' < badAfterIndex)
             \<and> nat (b' - g') < nat (badAfterIndex - goodBeforeIndex))
       \<and> (\<forall>w' g' b'. bisect_loop install check timeline w goodBeforeIndex badAfterIndex = Inr (w', g', b') \<longrightarrow>
             \<not> g' < b')"
proof -
  note tb = tryBeforeIndex_bounds [OF assms]
  have "(g' = tryBeforeIndex goodBeforeIndex badAfterIndex \<and> goodBeforeIndex < g' \<and> b' = badAfterIndex
              \<or> g' = goodBeforeIndex \<and> b' = tryBeforeIndex goodBeforeIndex badAfterIndex - 1 \<and> b' < badAfterIndex)
             \<and> nat (b' - g') < nat (badAfterIndex - goodBeforeIndex)"
    if "loop_body install check timeline w goodBeforeIndex badAfterIndex = Inr (w', g', b')" for w' g' b'
    using that tb assms
    by (auto simp: loop_body_def Let_def split: option.splits if_splits)
  moreover have "\<not> g' < b'"
    if "bisect_loop install check timeline w goodBeforeIndex badAfterIndex = Inr (w', g', b')" for w' g' b'
    using that by (rule bisect_loop_exit)
  ultimately show ?thesis using tb by auto
qed

theorem bisection_shrinks_witness:
  "(0::int) < 3 \<and> tryBeforeIndex 0 3 = 2
   \<and> loop_body synthetic_install (synthetic_check 30)
        [\<lparr>packageName = ''a'', version = ''1.0.1'', time = 10\<rparr>,
         \<lparr>packageName = ''b'', version = ''2.3.0'', time = 20\<rparr>,
         \<lparr>packageName = ''c'', version = ''0.1.0'', time = 30\<rparr>,
         \<lparr>packageName = ''d'', version = ''4.0.0'', time = 40\<rparr>] 0 0 3 = Inr (29, 2, 3)
   \<and> nat (3 - 2) < nat (3 - 0)
   \<and> bisect_loop synthetic_install (synthetic_check 30)
        [\<lparr>packageName = ''a'', version = ''1.0.1'', time = 10\<rparr>,
         \<lparr>packageName = ''b'', version = ''2.3.0'', time = 20\<rparr>,
         \<lparr>packageName = ''c'', version = ''0.1.0'', time = 30\<rparr>,
         \<lparr>packageName = ''d'', version = ''4.0.0'', time = 40\<rparr>] 0 0 3 = Inr (39, 2, 2)"
  using bisection_shrinks [of 0 3 synthetic_install "synthetic_check 30"
        "[\<lparr>packageName = ''a'', version = ''1.0.1'', time = 10\<rparr>,
         \<lparr>packageName = ''b'', version = ''2.3.0'', time = 20\<rparr>,
         \<lparr>packageName = ''c'', version = ''0.1.0'', time = 30\<rparr>,
         \<lparr>packageName = ''d'', version = ''4.0.0'', time = 40\<rparr>]" 0]
  by (simp add: bisect_loop.simps loop_body_def tryBeforeIndex_eq at_index_def
        synthetic_install_def synthetic_check_def)

text \<open>
  C1 (amended). On a non-empty timeline sorted by publish time, with an oracle that answers
  "works" exactly when the cutoff of the install is strictly before the publish time of the
  designated culprit \<open>timeline ! c\<close>, the loop ends with
  \<open>badAfterIndex = goodBeforeIndex\<close> and the driver reports the last event of the timeline
  whose publish time equals the culprit's. That event is the culprit itself whenever no later
  event shares the culprit's publish time.
\<close>

theorem bisection_result:
  assumes "timeline \<noteq> []" and "sorted (map time timeline)" and "c < length timeline"
    and "\<forall>cutoff w. \<exists>w1. install cutoff w = Some w1
           \<and> fst (check w1) = (cutoff < time (timeline ! c))"
  shows "\<exists>w' j. c \<le> j \<and> j < length timeline \<and> time (timeline ! j) = time (timeline ! c)
           \<and> (\<forall>i<length timeline. j < i \<longrightarrow> time (timeline ! c) < time (timeline ! i))
           \<and> bisect_loop install check timeline w 0 (int (length timeline) - 1) = Inr (w', int j, int j)
           \<and> bisect install check timeline w = Inr (w', ProblemIntroducedBy (timeline ! j))
           \<and> ((\<forall>i<length timeline. c < i \<longrightarrow> time (timeline ! i) \<noteq> time (timeline ! c)) \<longrightarrow> j = c)"
proof -
  from sorted_threshold [OF assms(2,3)] obtain j where
    j: "c \<le> j" "j < length timeline" "time (timeline ! j) = time (timeline ! c)"
    and thr: "\<forall>i<length timeline. (time (timeline ! i) \<le> time (timeline ! c)) = (i \<le> j)"
    by blast
  from thr have thr': "\<forall>i<length timeline. (time (timeline ! i) \<le> time (timeline ! c)) = (int i \<le> int j)"
    by simp
  from j have "(0::int) \<le> 0" "0 \<le> int j" "int j \<le> int (length timeline) - 1"
    "int (length timeline) - 1 < int (length timeline)" by simp_all
  from bisect_loop_converges [OF assms(4) thr' this] obtain w' where
    loop: "bisect_loop install check timeline w 0 (int (length timeline) - 1) = Inr (w', int j, int j)"
    by blast
  have rep: "bisect install check timeline w = Inr (w', ProblemIntroducedBy (timeline ! j))"
    using assms(1) j(2) loop by (simp add: bisect_def at_index_def)
  have later: "\<forall>i<length timeline. j < i \<longrightarrow> time (timeline ! c) < time (timeline ! i)"
    using thr by (metis not_le)
  have "j = c" if "\<forall>i<length timeline. c < i \<longrightarrow> time (timeline ! i) \<noteq> time (timeline ! c)"
    using that j by (metis le_neq_implies_less)
  with j loop rep later show ?thesis by blast
qed

theorem bisection_result_witness:
  "[\<lparr>packageName = ''a'', version = ''1.0.1'', time = 10\<rparr>,
    \<lparr>packageName = ''b'', version = ''2.3.0'', time = 20\<rparr>,
    \<lparr>packageName = ''c'', version = ''0.1.0'', time = 30\<rparr>] \<noteq> []
   \<and> sorted (map time
        [\<lparr>packageName = ''a'', version = ''1.0.1'', time = 10\<rparr>,
         \<lparr>packageName = ''b'', version = ''2.3.0'', time = 20\<rparr>,
         \<lparr>packageName = ''c'', version = ''0.1.0'', time = 30\<rparr>])
   \<and> (\<exists>w'. bisect synthetic_install (synthetic_check 20)
        [\<lparr>packageName = ''a'', version = ''1.0.1'', time = 10\<rparr>,
         \<lparr>packageName = ''b'', version = ''2.3.0'', time = 20\<rparr>,
         \<lparr>packageName = ''c'', version = ''0.1.0'', time = 30\<rparr>] 0
      = Inr (w', ProblemIntroducedBy \<lparr>packageName = ''b'', version = ''2.3.0'', time = 20\<rparr>))"
proof -
  let ?tl = "[\<lparr>packageName = ''a'', version = ''1.0.1'', time = 10\<rparr>,
    \<lparr>packageName = ''b'', version = ''2.3.0'', time = 20\<rparr>,
    \<lparr>packageName = ''c'', version = ''0.1.0'', time = 30\<rparr>]"
  have h1: "?tl \<noteq> []" by simp
  have h2: "sorted (map time ?tl)" by simp
  have h3: "Suc 0 < length ?tl" by simp
  have h4: "\<forall>cutoff w. \<exists>w1. synthetic_install cutoff w = Some w1
      \<and> fst (synthetic_check 20 w1) = (cutoff < time (?tl ! Suc 0))"
    by (simp add: synthetic_install_def synthetic_check_def)
  have h5: "\<forall>i<length ?tl. Suc 0 < i \<longrightarrow> time (?tl ! i) \<noteq> time (?tl ! Suc 0)"
    by (simp add: less_Suc_eq numeral_3_eq_3)
  from bisection_result [of ?tl "Suc 0" synthetic_install "synthetic_check 20" 0, OF h1 h2 h3]
    h4 h5
  obtain w' j where "j = Suc 0"
    "bisect synthetic_install (synthetic_check 20) ?tl 0 = Inr (w', ProblemIntroducedBy (?tl ! j))"
    by auto
  then show ?thesis by auto
qed

text \<open>
  C1 as stated fails when two candidates share a publish time: the timeline is sorted, the
  culprit is the first of two events published at the same millisecond, and the driver
  reports the second.
\<close>

theorem bisection_tied_times_counterexample:
  "sorted (map time
        [\<lparr>packageName = ''a'', version = ''1.0.1'', time = 5\<rparr>,
         \<lparr>packageName = ''b'', version = ''2.3.0'', time = 5\<rparr>])
   \<and> bisect synthetic_install (synthetic_check (time \<lparr>packageName = ''a'', version = ''1.0.1'', time = 5\<rparr>))
        [\<lparr>packageName = ''a'', version = ''1.0.1'', time = 5\<rparr>,
         \<lparr>packageName = ''b'', version = ''2.3.0'', time = 5\<rparr>] 0
      = Inr (4, ProblemIntroducedBy \<lparr>packageName = ''b'', version = ''2.3.0'', time = 5\<rparr>)
   \<and> \<lparr>packageName = ''b'', version = ''2.3.0'', time = 5\<rparr>
      \<noteq> \<lparr>packageName = ''a'', version = ''1.0.1'', time = 5\<rparr>"
  by (simp add: bisect_def bisect_loop.simps loop_body_def tryBeforeIndex_eq at_index_def
        synthetic_install_def synthetic_check_def)

section \<open>The registry response rewriter (main.js)\<close>

text \<open>
  A JavaScript object with string keys: its entries in the order of \<^verbatim>\<open>Object.keys\<close>.
  \<^verbatim>\<open>o[k]\<close> is \<open>map_of o k\<close> (\<open>None\<close> for \<^verbatim>\<open>undefined\<close>), \<^verbatim>\<open>delete o[k]\<close> is
  \<open>AList.delete k o\<close> and \<^verbatim>\<open>o[k] = v\<close> is \<open>AList.update k v o\<close>.
\<close>

type_synonym 'a object = "(string \<times> 'a) list"

text \<open>
  A \<^verbatim>\<open>Date\<close>: its millisecond value, or \<open>None\<close> for an invalid date (whose value is
  \<^verbatim>\<open>NaN\<close>). \<^verbatim>\<open>a > b\<close> on two dates compares the values, and is false when either is
  \<^verbatim>\<open>NaN\<close>.
\<close>

type_synonym date = "int option"

definition date_gt :: "date \<Rightarrow> date \<Rightarrow> bool" where
  "date_gt a b = (case a of None \<Rightarrow> False | Some x \<Rightarrow> (case b of None \<Rightarrow> False | Some y \<Rightarrow> y < x))"

text \<open>
  \<^verbatim>\<open>new Date(timeByVersion[version])\<close>. How a JSON value of the \<^verbatim>\<open>time\<close> map parses as a
  date belongs to the runtime and is the parameter \<open>parseDate\<close>; a missing entry is
  \<^verbatim>\<open>new Date(undefined)\<close>, an invalid date.
\<close>

definition new_Date :: "('v \<Rightarrow> date) \<Rightarrow> 'v option \<Rightarrow> date" where
  "new_Date parseDate x = (case x of None \<Rightarrow> None | Some v \<Rightarrow> parseDate v)"

text \<open>
  The parsed package metadata document, with the four properties the proxy reads. A property
  that is absent is \<open>None\<close>. The values of the \<^verbatim>\<open>time\<close> map (\<open>'v\<close>) and the per-version
  objects (\<open>'p\<close>) are kept as they are; every other property of the document is in the
  extension part of the record. A value of \<^verbatim>\<open>dist-tags\<close> is a version string, or \<open>None\<close>
  once \<^verbatim>\<open>undefined\<close> has been assigned to it.
\<close>

record ('v, 'p) package_metadata =
  obj_name :: "string option"
  obj_versions :: "'p object option"
  obj_time :: "'v object option"
  obj_dist_tags :: "string option object option"

text \<open>The local variables of \<^verbatim>\<open>removeVersionsFromPackageMetadata\<close> and the two objects it edits.\<close>

record ('v, 'p) rewriter_state =
  timeByVersion :: "'v object"
  versions :: "'p object"
  changesMade :: bool
  deletedVersions :: "string set"
  latestPreservedVersion :: "string option"
  latestPreservedVersionTime :: "date option"

text \<open>
  The body of \<^verbatim>\<open>for (const version of Object.keys(timeByVersion))\<close>, with \<open>ver\<close> for
  \<^verbatim>\<open>version\<close> and \<open>tm\<close> for \<^verbatim>\<open>time\<close>. The guard is
  \<^verbatim>\<open>version !== 'modified' && version !== 'created'\<close>; the second reserved key is the
  parameter \<open>otherKey\<close>, because the oldest copy of the file spells it \<^verbatim>\<open>'changed'\<close>.
  \<^verbatim>\<open>!latestPreservedVersionTime\<close> holds only while the variable is \<^verbatim>\<open>undefined\<close>: a
  \<^verbatim>\<open>Date\<close> object is truthy even when invalid.
\<close>

definition visit_version ::
  "('v \<Rightarrow> date) \<Rightarrow> string \<Rightarrow> date \<Rightarrow> string \<Rightarrow> ('v, 'p) rewriter_state \<Rightarrow> ('v, 'p) rewriter_state" where
  "visit_version parseDate otherKey ignoreNewerThan ver st =
     (if ver \<noteq> ''modified'' \<and> ver \<noteq> otherKey then
        (let tm = new_Date parseDate (map_of (timeByVersion st) ver) in
         if date_gt tm ignoreNewerThan then
           st\<lparr>timeByVersion := AList.delete ver (timeByVersion st),
              versions := AList.delete ver (versions st),
              changesMade := True,
              deletedVersions := insert ver (deletedVersions st)\<rparr>
         else if (case latestPreservedVersionTime st of
                    None \<Rightarrow> True
                  | Some latest \<Rightarrow> date_gt tm latest) then
           st\<lparr>latestPreservedVersion := Some ver,
              latestPreservedVersionTime := Some tm\<rparr>
         else st)
      else st)"

text \<open>The whole loop, over the keys the object has when the loop starts.\<close>

definition scan_versions ::
  "('v \<Rightarrow> date) \<Rightarrow> string \<Rightarrow> date \<Rightarrow> 'v object \<Rightarrow> 'p object \<Rightarrow> ('v, 'p) rewriter_state" where
  "scan_versions parseDate otherKey ignoreNewerThan tbv vs =
     fold (visit_version parseDate otherKey ignoreNewerThan) (map fst tbv)
       \<lparr>timeByVersion = tbv, versions = vs, changesMade = False, deletedVersions = {},
        latestPreservedVersion = None, latestPreservedVersionTime = None\<rparr>"

text \<open>
  \<^verbatim>\<open>obj['dist-tags'].latest = latestPreservedVersion\<close>, done when changes were made and
  \<^verbatim>\<open>dist-tags.latest\<close> is a non-empty string naming a deleted version.
\<close>

definition retag_latest ::
  "('v, 'p) rewriter_state \<Rightarrow> string option object option \<Rightarrow> string option object option" where
  "retag_latest st distTags =
     (case distTags of
        None \<Rightarrow> None
      | Some tags \<Rightarrow>
          (case map_of tags ''latest'' of
             Some (Some latest) \<Rightarrow>
               (if changesMade st \<and> latest \<noteq> [] \<and> latest \<in> deletedVersions st
                then Some (AList.update ''latest'' (latestPreservedVersion st) tags)
                else Some tags)
           | _ \<Rightarrow> Some tags))"

text \<open>
  \<^verbatim>\<open>removeVersionsFromPackageMetadata(obj, timeByVersion)\<close> with the module constant
  \<^verbatim>\<open>ignoreNewerThan\<close> as a parameter. It edits both arguments in place; the model returns
  the flag, the document and the time map. The \<^verbatim>\<open>time\<close> property of the document is
  not touched here: whether \<^verbatim>\<open>timeByVersion\<close> is that very object is decided by the caller.
\<close>

definition removeVersions_with ::
  "('v \<Rightarrow> date) \<Rightarrow> string \<Rightarrow> date \<Rightarrow> ('v, 'p, 'z) package_metadata_scheme \<Rightarrow> 'v object option
     \<Rightarrow> bool \<times> ('v, 'p, 'z) package_metadata_scheme \<times> 'v object option" where
  "removeVersions_with parseDate otherKey ignoreNewerThan obj tbv =
     (case tbv of
        None \<Rightarrow> (False, obj, tbv)
      | Some t \<Rightarrow>
          (case obj_versions obj of
             None \<Rightarrow> (False, obj, tbv)
           | Some vs \<Rightarrow>
               (let st = scan_versions parseDate otherKey ignoreNewerThan t vs in
                (changesMade st,
                 obj\<lparr>obj_versions := Some (versions st),
                     obj_dist_tags := retag_latest st (obj_dist_tags obj)\<rparr>,
                 Some (timeByVersion st)))))"

text \<open>The function as it is in the two later copies of main.js.\<close>

definition removeVersionsFromPackageMetadata ::
  "('v \<Rightarrow> date) \<Rightarrow> date \<Rightarrow> ('v, 'p, 'z) package_metadata_scheme \<Rightarrow> 'v object option
     \<Rightarrow> bool \<times> ('v, 'p, 'z) package_metadata_scheme \<times> 'v object option" where
  "removeVersionsFromPackageMetadata parseDate = removeVersions_with parseDate ''created''"

text \<open>The function as it is in src/main.js, where the guard reads \<^verbatim>\<open>version !== 'changed'\<close>.\<close>

definition removeVersionsFromPackageMetadata_main_js ::
  "('v \<Rightarrow> date) \<Rightarrow> date \<Rightarrow> ('v, 'p, 'z) package_metadata_scheme \<Rightarrow> 'v object option
     \<Rightarrow> bool \<times> ('v, 'p, 'z) package_metadata_scheme \<times> 'v object option" where
  "removeVersionsFromPackageMetadata_main_js parseDate = removeVersions_with parseDate ''changed''"

text \<open>
  The rewriter on a document that carries its own \<^verbatim>\<open>time\<close> map: the request handler
  passes \<^verbatim>\<open>obj.time\<close> as \<^verbatim>\<open>timeByVersion\<close>, so the deletions land in the document.
\<close>

definition rewrite_with ::
  "('v \<Rightarrow> date) \<Rightarrow> string \<Rightarrow> date \<Rightarrow> ('v, 'p, 'z) package_metadata_scheme
     \<Rightarrow> bool \<times> ('v, 'p, 'z) package_metadata_scheme" where
  "rewrite_with parseDate otherKey ignoreNewerThan obj =
     (case removeVersions_with parseDate otherKey ignoreNewerThan obj (obj_time obj) of
        (changed, obj', tbv') \<Rightarrow> (changed, obj'\<lparr>obj_time := tbv'\<rparr>))"

text \<open>
  The test that deletes a key: it is not one of the two reserved keys and the date parsed
  from its entry in the time map is after the cutoff.
\<close>

definition is_hidden :: "('v \<Rightarrow> date) \<Rightarrow> string \<Rightarrow> date \<Rightarrow> 'v object \<Rightarrow> string \<Rightarrow> bool" where
  "is_hidden parseDate otherKey ignoreNewerThan tbv k =
     (k \<noteq> ''modified'' \<and> k \<noteq> otherKey
      \<and> date_gt (new_Date parseDate (map_of tbv k)) ignoreNewerThan)"

text \<open>The keys of the \<^verbatim>\<open>versions\<close> map of a document.\<close>

definition version_keys :: "('v, 'p, 'z) package_metadata_scheme \<Rightarrow> string set" where
  "version_keys obj = (case obj_versions obj of None \<Rightarrow> {} | Some vs \<Rightarrow> fst ` set vs)"

text \<open>\<^verbatim>\<open>o[k]\<close> on a property that may itself be absent.\<close>

definition property :: "'a object option \<Rightarrow> string \<Rightarrow> 'a option" where
  "property ob k = (case ob of None \<Rightarrow> None | Some al \<Rightarrow> map_of al k)"

text \<open>
  A document in the shape the registry serves, with time values already in milliseconds
  (read by \<open>Some\<close>), and what the rewriter makes of it at cutoff 20.
\<close>

definition example_document :: "(int, unit) package_metadata" where
  "example_document =
     \<lparr>obj_name = Some ''a'',
      obj_versions = Some [(''1.0.0'', ()), (''1.1.0'', ()), (''2.0.0'', ())],
      obj_time = Some [(''modified'', 99), (''created'', 10), (''1.0.0'', 10), (''1.1.0'', 15), (''2.0.0'', 30)],
      obj_dist_tags = Some [(''latest'', Some ''2.0.0'')]\<rparr>"

definition example_rewritten :: "(int, unit) package_metadata" where
  "example_rewritten =
     \<lparr>obj_name = Some ''a'',
      obj_versions = Some [(''1.0.0'', ()), (''1.1.0'', ())],
      obj_time = Some [(''modified'', 99), (''created'', 10), (''1.0.0'', 10), (''1.1.0'', 15)],
      obj_dist_tags = Some [(''latest'', Some ''1.1.0'')]\<rparr>"

lemmas rewriter_defs =
  rewrite_with_def removeVersions_with_def removeVersionsFromPackageMetadata_def
  removeVersionsFromPackageMetadata_main_js_def scan_versions_def visit_version_def
  retag_latest_def new_Date_def date_gt_def Let_def

lemma map_of_delete_other: "k' \<noteq> k \<Longrightarrow> map_of (AList.delete k xs) k' = map_of xs k'"
  by (simp add: delete_conv')

lemma map_of_delete_same: "map_of (AList.delete k xs) k = None"
  by (simp add: delete_conv')

lemma is_hidden_delete:
  "is_hidden pd ok C (AList.delete k tbv) k' = (k' \<noteq> k \<and> is_hidden pd ok C tbv k')"
  by (cases "k' = k")
    (simp_all add: is_hidden_def map_of_delete_other map_of_delete_same new_Date_def date_gt_def)

lemma visit_version_cases:
  "visit_version pd ok C k st =
     (if is_hidden pd ok C (timeByVersion st) k then
        st\<lparr>timeByVersion := AList.delete k (timeByVersion st),
           versions := AList.delete k (versions st),
           changesMade := True,
           deletedVersions := insert k (deletedVersions st)\<rparr>
      else st\<lparr>latestPreservedVersion := latestPreservedVersion (visit_version pd ok C k st),
              latestPreservedVersionTime := latestPreservedVersionTime (visit_version pd ok C k st)\<rparr>)"
  by (simp add: visit_version_def is_hidden_def Let_def)

lemma visit_timeByVersion:
  "timeByVersion (visit_version pd ok C k st) =
     (if is_hidden pd ok C (timeByVersion st) k then AList.delete k (timeByVersion st)
      else timeByVersion st)"
  by (subst visit_version_cases) simp

lemma visit_versions:
  "versions (visit_version pd ok C k st) =
     (if is_hidden pd ok C (timeByVersion st) k then AList.delete k (versions st)
      else versions st)"
  by (subst visit_version_cases) simp

lemma visit_deletedVersions:
  "deletedVersions (visit_version pd ok C k st) =
     (if is_hidden pd ok C (timeByVersion st) k then insert k (deletedVersions st)
      else deletedVersions st)"
  by (subst visit_version_cases) simp

lemma visit_changesMade:
  "changesMade (visit_version pd ok C k st) =
     (changesMade st \<or> is_hidden pd ok C (timeByVersion st) k)"
  by (subst visit_version_cases) simp

lemma fold_timeByVersion:
  "timeByVersion (fold (visit_version pd ok C) ks st) =
     filter (\<lambda>(k, _). \<not> (k \<in> set ks \<and> is_hidden pd ok C (timeByVersion st) k)) (timeByVersion st)"
proof (induction ks arbitrary: st)
  case Nil
  show ?case by simp
next
  case (Cons k ks)
  show ?case
  proof (cases "is_hidden pd ok C (timeByVersion st) k")
    case True
    then have "timeByVersion (fold (visit_version pd ok C) (k # ks) st) =
        filter (\<lambda>(k', _). \<not> (k' \<in> set ks \<and> k' \<noteq> k \<and> is_hidden pd ok C (timeByVersion st) k'))
          (AList.delete k (timeByVersion st))"
      by (simp add: Cons.IH visit_timeByVersion is_hidden_delete)
    also have "\<dots> = filter (\<lambda>(k', _). \<not> (k' \<in> set (k # ks) \<and> is_hidden pd ok C (timeByVersion st) k'))
          (timeByVersion st)"
      unfolding AList.delete_eq filter_filter using True by (intro filter_cong) auto
    finally show ?thesis .
  next
    case False
    then show ?thesis
      by (simp add: Cons.IH visit_timeByVersion) (rule filter_cong, auto)
  qed
qed

lemma fold_versions:
  "versions (fold (visit_version pd ok C) ks st) =
     filter (\<lambda>(k, _). \<not> (k \<in> set ks \<and> is_hidden pd ok C (timeByVersion st) k)) (versions st)"
proof (induction ks arbitrary: st)
  case Nil
  show ?case by simp
next
  case (Cons k ks)
  show ?case
  proof (cases "is_hidden pd ok C (timeByVersion st) k")
    case True
    then have "versions (fold (visit_version pd ok C) (k # ks) st) =
        filter (\<lambda>(k', _). \<not> (k' \<in> set ks \<and> k' \<noteq> k \<and> is_hidden pd ok C (timeByVersion st) k'))
          (AList.delete k (versions st))"
      by (simp add: Cons.IH visit_timeByVersion visit_versions is_hidden_delete)
    also have "\<dots> = filter (\<lambda>(k', _). \<not> (k' \<in> set (k # ks) \<and> is_hidden pd ok C (timeByVersion st) k'))
          (versions st)"
      unfolding AList.delete_eq filter_filter using True by (intro filter_cong) auto
    finally show ?thesis .
  next
    case False
    then show ?thesis
      by (simp add: Cons.IH visit_timeByVersion visit_versions) (rule filter_cong, auto)
  qed
qed

lemma fold_deletedVersions:
  "deletedVersions (fold (visit_version pd ok C) ks st) =
     deletedVersions st \<union> {k \<in> set ks. is_hidden pd ok C (timeByVersion st) k}"
proof (induction ks arbitrary: st)
  case Nil
  show ?case by simp
next
  case (Cons k ks)
  show ?case
    by (cases "is_hidden pd ok C (timeByVersion st) k")
      (auto simp: Cons.IH visit_timeByVersion visit_deletedVersions is_hidden_delete)
qed

lemma fold_changesMade:
  "changesMade (fold (visit_version pd ok C) ks st) =
     (changesMade st \<or> (\<exists>k \<in> set ks. is_hidden pd ok C (timeByVersion st) k))"
proof (induction ks arbitrary: st)
  case Nil
  show ?case by simp
next
  case (Cons k ks)
  show ?case
    by (cases "is_hidden pd ok C (timeByVersion st) k")
      (auto simp: Cons.IH visit_timeByVersion visit_changesMade is_hidden_delete)
qed

lemma scan_timeByVersion:
  "timeByVersion (scan_versions pd ok C tbv vs) = filter (\<lambda>(k, _). \<not> is_hidden pd ok C tbv k) tbv"
  unfolding scan_versions_def fold_timeByVersion
  by (simp, intro filter_cong) force+

lemma scan_versions_versions:
  "versions (scan_versions pd ok C tbv vs) =
     filter (\<lambda>(k, _). \<not> (k \<in> fst ` set tbv \<and> is_hidden pd ok C tbv k)) vs"
  unfolding scan_versions_def fold_versions by simp

lemma scan_deletedVersions:
  "deletedVersions (scan_versions pd ok C tbv vs) = {k \<in> fst ` set tbv. is_hidden pd ok C tbv k}"
  unfolding scan_versions_def fold_deletedVersions by simp

lemma scan_changesMade:
  "changesMade (scan_versions pd ok C tbv vs) = (\<exists>k \<in> fst ` set tbv. is_hidden pd ok C tbv k)"
  unfolding scan_versions_def fold_changesMade by simp

lemma map_of_filter_keys:
  "map_of (filter (\<lambda>(k, _). P k) xs) k = (if P k then map_of xs k else None)"
  by (induction xs) auto

lemma retag_latest_unchanged: "\<not> changesMade st \<Longrightarrow> retag_latest st tags = tags"
  by (simp add: retag_latest_def split: option.splits)

lemma rewrite_with_absent:
  "obj_time obj = None \<or> obj_versions obj = None \<Longrightarrow> rewrite_with pd ok C obj = (False, obj)"
  by (auto simp: rewrite_with_def removeVersions_with_def split: option.splits)

lemma rewrite_with_present:
  assumes "obj_time obj = Some t" and "obj_versions obj = Some vs"
  shows "rewrite_with pd ok C obj =
     (\<exists>k \<in> fst ` set t. is_hidden pd ok C t k,
      obj\<lparr>obj_versions := Some (filter (\<lambda>(k, _). \<not> (k \<in> fst ` set t \<and> is_hidden pd ok C t k)) vs),
          obj_dist_tags := retag_latest (scan_versions pd ok C t vs) (obj_dist_tags obj),
          obj_time := Some (filter (\<lambda>(k, _). \<not> is_hidden pd ok C t k) t)\<rparr>)"
  using assms
  by (simp add: rewrite_with_def removeVersions_with_def Let_def scan_timeByVersion
      scan_versions_versions scan_changesMade)

lemma is_hidden_survivors:
  "is_hidden pd ok C (filter (\<lambda>(k, _). \<not> is_hidden pd ok C t k) t) k = False"
  by (cases "is_hidden pd ok C t k")
    (simp_all add: is_hidden_def map_of_filter_keys new_Date_def date_gt_def)

lemma is_hidden_mono:
  "C1 \<le> C2 \<Longrightarrow> is_hidden pd ok (Some C2) t k \<Longrightarrow> is_hidden pd ok (Some C1) t k"
  by (auto simp: is_hidden_def date_gt_def split: option.splits)

lemma version_keys_mono:
  assumes "C1 \<le> C2"
  shows "version_keys (snd (rewrite_with pd ok (Some C1) obj))
       \<subseteq> version_keys (snd (rewrite_with pd ok (Some C2) obj))"
proof (cases "obj_time obj = None \<or> obj_versions obj = None")
  case True
  then show ?thesis by (simp add: rewrite_with_absent)
next
  case False
  then obtain t vs where t: "obj_time obj = Some t" and vs: "obj_versions obj = Some vs" by auto
  show ?thesis
    using is_hidden_mono [OF assms, of pd ok t]
    by (auto simp: rewrite_with_present [OF t vs] version_keys_def)
qed

lemma visit_latest_not_reserved:
  "k = ''modified'' \<or> k = ok \<Longrightarrow> latestPreservedVersion (visit_version pd ok C ver st) = Some k
     \<Longrightarrow> latestPreservedVersion st = Some k"
  by (auto simp: visit_version_def Let_def split: if_splits)

lemma fold_latest_not_reserved:
  "k = ''modified'' \<or> k = ok \<Longrightarrow> latestPreservedVersion (fold (visit_version pd ok C) ks st) = Some k
     \<Longrightarrow> latestPreservedVersion st = Some k"
proof (induction ks arbitrary: st)
  case Nil
  then show ?case by simp
next
  case (Cons ver ks)
  from Cons.prems have "latestPreservedVersion (visit_version pd ok C ver st) = Some k"
    using Cons.IH [of "visit_version pd ok C ver st"] by simp
  with Cons.prems(1) show ?case by (rule visit_latest_not_reserved)
qed

lemma scan_latest_not_reserved:
  "k = ''modified'' \<or> k = ok \<Longrightarrow> latestPreservedVersion (scan_versions pd ok C t vs) \<noteq> Some k"
  unfolding scan_versions_def using fold_latest_not_reserved [of k ok pd C] by fastforce

lemma scan_deleted_not_reserved:
  "k = ''modified'' \<or> k = ok \<Longrightarrow> k \<notin> deletedVersions (scan_versions pd ok C t vs)"
  by (auto simp: scan_deletedVersions is_hidden_def)

lemma scan_time_reserved:
  "k = ''modified'' \<or> k = ok \<Longrightarrow> map_of (timeByVersion (scan_versions pd ok C t vs)) k = map_of t k"
  by (auto simp: scan_timeByVersion map_of_filter_keys is_hidden_def)

lemma scan_versions_reserved:
  "k = ''modified'' \<or> k = ok \<Longrightarrow> map_of (versions (scan_versions pd ok C t vs)) k = map_of vs k"
  by (auto simp: scan_versions_versions map_of_filter_keys is_hidden_def)

lemma retag_latest_not_reserved:
  assumes "latestPreservedVersion st \<noteq> Some k"
    and "property (retag_latest st tags) tag = Some (Some k)"
  shows "property tags tag = Some (Some k)"
  using assms
  by (auto simp: retag_latest_def property_def update_conv' split: option.splits if_splits)

lemma removeVersions_with_reserved:
  assumes "k = ''modified'' \<or> k = ok"
    and "removeVersions_with pd ok C obj tbv = (changed, obj', tbv')"
  shows "property tbv' k = property tbv k"
    and "property (obj_versions obj') k = property (obj_versions obj) k"
    and "property (obj_dist_tags obj') tag = Some (Some k)
          \<Longrightarrow> property (obj_dist_tags obj) tag = Some (Some k)"
proof -
  show "property tbv' k = property tbv k"
    using assms
    by (auto simp: removeVersions_with_def Let_def property_def scan_time_reserved
        split: option.splits)
  show "property (obj_versions obj') k = property (obj_versions obj) k"
    using assms
    by (auto simp: removeVersions_with_def Let_def property_def scan_versions_reserved
        split: option.splits)
  show "property (obj_dist_tags obj) tag = Some (Some k)"
    if "property (obj_dist_tags obj') tag = Some (Some k)"
    using assms that retag_latest_not_reserved [OF scan_latest_not_reserved [OF assms(1)]]
    by (auto simp: removeVersions_with_def Let_def split: option.splits)
qed

subsection \<open>What the rewriter guarantees\<close>

lemma example_rewrite:
  "rewrite_with Some ''created'' (Some 20) example_document = (True, example_rewritten)"
  by (simp add: example_document_def example_rewritten_def rewriter_defs)

text \<open>
  C2 (amended). For every document with a \<^verbatim>\<open>time\<close> and a \<^verbatim>\<open>versions\<close> map and every
  cutoff, after the rewriter has run on the document and its own time map, every key that
  remains in \<^verbatim>\<open>versions\<close> and is not one of the two reserved keys has the entry in the time
  map that it had before the call (none if it had none), and the date parsed from that
  entry is not strictly greater than the cutoff. This holds for either spelling of the
  second reserved key.
\<close>

theorem remaining_versions:
  assumes "obj_time obj = Some t" and "obj_versions obj = Some vs"
  shows "\<exists>t' vs'. obj_time (snd (rewrite_with parseDate otherKey ignoreNewerThan obj)) = Some t'
       \<and> obj_versions (snd (rewrite_with parseDate otherKey ignoreNewerThan obj)) = Some vs'
       \<and> (\<forall>v \<in> fst ` set vs'. v \<noteq> ''modified'' \<and> v \<noteq> otherKey \<longrightarrow>
             map_of t' v = map_of t v \<and> \<not> date_gt (new_Date parseDate (map_of t' v)) ignoreNewerThan)"
proof -
  have "map_of (filter (\<lambda>(k, _). \<not> is_hidden parseDate otherKey ignoreNewerThan t k) t) v = map_of t v
      \<and> \<not> date_gt (new_Date parseDate (map_of (filter (\<lambda>(k, _). \<not> is_hidden parseDate otherKey ignoreNewerThan t k) t) v)) ignoreNewerThan"
    if "\<not> (v \<in> fst ` set t \<and> is_hidden parseDate otherKey ignoreNewerThan t v)" "v \<noteq> ''modified''" "v \<noteq> otherKey" for v
  proof (cases "v \<in> fst ` set t")
    case True
    with that have "\<not> is_hidden parseDate otherKey ignoreNewerThan t v" by simp
    with that show ?thesis by (simp add: map_of_filter_keys is_hidden_def)
  next
    case False
    then have "map_of t v = None" by (simp add: map_of_eq_None_iff)
    then show ?thesis by (simp add: map_of_filter_keys new_Date_def date_gt_def)
  qed
  note inner = this
  have key: "\<forall>v \<in> fst ` set (filter (\<lambda>(k, _). \<not> (k \<in> fst ` set t \<and> is_hidden parseDate otherKey ignoreNewerThan t k)) vs).
      v \<noteq> ''modified'' \<and> v \<noteq> otherKey \<longrightarrow>
        map_of (filter (\<lambda>(k, _). \<not> is_hidden parseDate otherKey ignoreNewerThan t k) t) v = map_of t v
        \<and> \<not> date_gt (new_Date parseDate (map_of (filter (\<lambda>(k, _). \<not> is_hidden parseDate otherKey ignoreNewerThan t k) t) v)) ignoreNewerThan"
  proof (intro ballI impI)
    fix v
    assume "v \<in> fst ` set (filter (\<lambda>(k, _). \<not> (k \<in> fst ` set t \<and> is_hidden parseDate otherKey ignoreNewerThan t k)) vs)"
      and r: "v \<noteq> ''modified'' \<and> v \<noteq> otherKey"
    then have "\<not> (v \<in> fst ` set t \<and> is_hidden parseDate otherKey ignoreNewerThan t v)" by force
    from inner [OF this] r
    show "map_of (filter (\<lambda>(k, _). \<not> is_hidden parseDate otherKey ignoreNewerThan t k) t) v = map_of t v
        \<and> \<not> date_gt (new_Date parseDate (map_of (filter (\<lambda>(k, _). \<not> is_hidden parseDate otherKey ignoreNewerThan t k) t) v)) ignoreNewerThan"
      by blast
  qed
  show ?thesis
    unfolding rewrite_with_present [OF assms]
    using key by simp metis
qed

theorem remaining_versions_witness:
  "obj_time example_document \<noteq> None \<and> obj_versions example_document \<noteq> None
   \<and> obj_versions (snd (rewrite_with Some ''created'' (Some 20) example_document))
       = Some [(''1.0.0'', ()), (''1.1.0'', ())]
   \<and> property (obj_time (snd (rewrite_with Some ''created'' (Some 20) example_document))) ''1.1.0''
       = Some 15
   \<and> \<not> date_gt (new_Date Some (Some 15)) (Some 20)"
proof -
  have t: "obj_time example_document
      = Some [(''modified'', 99), (''created'', 10), (''1.0.0'', 10), (''1.1.0'', 15), (''2.0.0'', 30)]"
    and vs: "obj_versions example_document = Some [(''1.0.0'', ()), (''1.1.0'', ()), (''2.0.0'', ())]"
    by (simp_all add: example_document_def)
  from remaining_versions [OF t vs, of Some "''created''" "Some 20"]
  have "\<not> date_gt (new_Date Some (map_of [(''modified'', 99), (''created'', 10), (''1.0.0'', 10), (''1.1.0'', 15)] ''1.1.0'')) (Some 20)"
    unfolding example_rewrite by (simp add: example_rewritten_def)
  then show ?thesis
    by (simp add: example_rewrite t vs) (simp add: example_rewritten_def property_def)
qed

text \<open>
  C2 as stated fails: the rewriter walks the keys of the time map only, so a version without
  an entry there stays in \<^verbatim>\<open>versions\<close> with no publish time at all, and a version named by
  a reserved key stays even when its time is after the cutoff.
\<close>

theorem versions_without_time_counterexample:
  "rewrite_with Some ''created'' (Some 20)
     \<lparr>obj_name = Some ''a'',
      obj_versions = Some [(''1.0.0'', ()), (''modified'', ())],
      obj_time = Some [(''modified'', 30::int)],
      obj_dist_tags = None\<rparr>
   = (False,
      \<lparr>obj_name = Some ''a'',
       obj_versions = Some [(''1.0.0'', ()), (''modified'', ())],
       obj_time = Some [(''modified'', 30)],
       obj_dist_tags = None\<rparr>)
   \<and> map_of [(''modified'', 30::int)] ''1.0.0'' = None
   \<and> date_gt (new_Date Some (map_of [(''modified'', 30::int)] ''modified'')) (Some 20)"
  by (simp add: rewriter_defs)

text \<open>
  C5. Running the rewriter on a document and then again, with the same cutoff, on the
  document it left: the second pass reports no change and returns the document as it got it.
\<close>

theorem rewrite_with_twice:
  "rewrite_with parseDate otherKey ignoreNewerThan
       (snd (rewrite_with parseDate otherKey ignoreNewerThan obj))
     = (False, snd (rewrite_with parseDate otherKey ignoreNewerThan obj))"
proof (cases "obj_time obj = None \<or> obj_versions obj = None")
  case True
  then show ?thesis by (simp add: rewrite_with_absent)
next
  case False
  then obtain t vs where t: "obj_time obj = Some t" and vs: "obj_versions obj = Some vs" by auto
  let ?t' = "filter (\<lambda>(k, _). \<not> is_hidden parseDate otherKey ignoreNewerThan t k) t"
  let ?vs' = "filter (\<lambda>(k, _). \<not> (k \<in> fst ` set t \<and> is_hidden parseDate otherKey ignoreNewerThan t k)) vs"
  let ?obj' = "snd (rewrite_with parseDate otherKey ignoreNewerThan obj)"
  have o': "obj_time ?obj' = Some ?t'" "obj_versions ?obj' = Some ?vs'"
    by (simp_all add: rewrite_with_present [OF t vs])
  have nc: "\<not> changesMade (scan_versions parseDate otherKey ignoreNewerThan ?t' vs')" for vs' :: "'b object"
    by (simp add: scan_changesMade is_hidden_survivors)
  have "rewrite_with parseDate otherKey ignoreNewerThan ?obj' =
      (False, ?obj'\<lparr>obj_versions := Some ?vs', obj_dist_tags := obj_dist_tags ?obj',
                obj_time := Some ?t'\<rparr>)"
    unfolding rewrite_with_present [OF o']
    by (simp add: is_hidden_survivors retag_latest_unchanged [OF nc])
  also have "?obj'\<lparr>obj_versions := Some ?vs', obj_dist_tags := obj_dist_tags ?obj',
                obj_time := Some ?t'\<rparr> = ?obj'"
    using o' by simp
  finally show ?thesis .
qed

theorem rewrite_with_twice_witness:
  "rewrite_with Some ''created'' (Some 20) example_rewritten = (False, example_rewritten)"
  using rewrite_with_twice [of Some "''created''" "Some 20" example_document]
  by (simp add: example_rewrite)

text \<open>
  C6. For two cutoffs \<open>C1 < C2\<close> and one document, the version keys left by the rewriter
  under \<open>C1\<close> are among those left under \<open>C2\<close>.
\<close>

theorem version_keys_monotone:
  "C1 < C2 \<Longrightarrow>
     version_keys (snd (rewrite_with parseDate otherKey (Some C1) D))
       \<subseteq> version_keys (snd (rewrite_with parseDate otherKey (Some C2) D))"
  by (rule version_keys_mono) simp

theorem version_keys_monotone_witness:
  "(20::int) < 40
   \<and> version_keys (snd (rewrite_with Some ''created'' (Some 20) example_document)) = {''1.0.0'', ''1.1.0''}
   \<and> ''1.1.0'' \<in> version_keys (snd (rewrite_with Some ''created'' (Some 40) example_document))"
  using version_keys_monotone [of 20 40 Some "''created''" example_document]
  by (simp add: example_rewrite) (simp add: example_rewritten_def version_keys_def)

text \<open>
  C3 (amended). The keys \<^verbatim>\<open>modified\<close> and \<^verbatim>\<open>created\<close> are left alone by
  \<^verbatim>\<open>removeVersionsFromPackageMetadata\<close>, whatever their values and whatever the cutoff:
  the entry under such a key is the same before and after in the time map and in the
  versions map, the key never enters the set of deleted versions, it is never the
  latest preserved version, and no dist-tag is made to point to it.
\<close>

theorem reserved_keys_left_alone:
  assumes "k = ''modified'' \<or> k = ''created''"
  shows "(case removeVersionsFromPackageMetadata parseDate ignoreNewerThan obj tbv of
            (changed, obj', tbv') \<Rightarrow>
               property tbv' k = property tbv k
             \<and> property (obj_versions obj') k = property (obj_versions obj) k
             \<and> (\<forall>tag. property (obj_dist_tags obj') tag = Some (Some k)
                   \<longrightarrow> property (obj_dist_tags obj) tag = Some (Some k)))
       \<and> k \<notin> deletedVersions (scan_versions parseDate ''created'' ignoreNewerThan t vs)
       \<and> latestPreservedVersion (scan_versions parseDate ''created'' ignoreNewerThan t vs) \<noteq> Some k"
proof -
  obtain changed obj' tbv' where
    r: "removeVersions_with parseDate ''created'' ignoreNewerThan obj tbv = (changed, obj', tbv')"
    by (cases "removeVersions_with parseDate ''created'' ignoreNewerThan obj tbv") auto
  note a = removeVersions_with_reserved [OF assms r]
  have "k \<notin> deletedVersions (scan_versions parseDate ''created'' ignoreNewerThan t vs)"
    using assms by (rule scan_deleted_not_reserved)
  moreover have "latestPreservedVersion (scan_versions parseDate ''created'' ignoreNewerThan t vs) \<noteq> Some k"
    using assms by (rule scan_latest_not_reserved)
  ultimately show ?thesis
    using a by (simp add: removeVersionsFromPackageMetadata_def r)
qed

theorem reserved_keys_left_alone_witness:
  "property (snd (snd (removeVersionsFromPackageMetadata Some (Some 5) example_document
       (obj_time example_document)))) ''created'' = Some 10
   \<and> date_gt (new_Date Some (Some 10)) (Some 5)
   \<and> ''created'' \<notin> deletedVersions (scan_versions Some ''created'' (Some 5)
         [(''modified'', 99), (''created'', 10), (''1.0.0'', 10::int)] [(''1.0.0'', ())])
   \<and> latestPreservedVersion (scan_versions Some ''created'' (Some 5)
         [(''modified'', 99), (''created'', 10), (''1.0.0'', 10::int)] [(''1.0.0'', ())]) = None"
  using reserved_keys_left_alone [where k = "''created''" and parseDate = Some
      and ignoreNewerThan = "Some 5" and obj = example_document
      and tbv = "obj_time example_document"
      and t = "[(''modified'', 99), (''created'', 10), (''1.0.0'', 10::int)]"
      and vs = "[(''1.0.0'', ())]"]
  by (simp add: example_document_def rewriter_defs property_def)

text \<open>
  C3 as stated fails for the third key it names: \<^verbatim>\<open>changed\<close> is not in the guard of the
  function, so an entry under that key is treated as a version and deleted when its time is
  after the cutoff.
\<close>

theorem changed_key_counterexample:
  "rewrite_with Some ''created'' (Some 20)
     \<lparr>obj_name = Some ''a'',
      obj_versions = Some [(''changed'', ())],
      obj_time = Some [(''modified'', 99), (''changed'', 30::int)],
      obj_dist_tags = None\<rparr>
   = (True,
      \<lparr>obj_name = Some ''a'',
       obj_versions = Some [],
       obj_time = Some [(''modified'', 99)],
       obj_dist_tags = None\<rparr>)
   \<and> ''changed'' \<in> deletedVersions (scan_versions Some ''created'' (Some 20)
         [(''modified'', 99), (''changed'', 30::int)] [(''changed'', ())])"
  by (simp add: rewriter_defs)

text \<open>
  The copy in src/main.js has \<^verbatim>\<open>'changed'\<close> where the later copies have \<^verbatim>\<open>'created'\<close>.
  There the key \<^verbatim>\<open>created\<close> of a registry document is taken for a version, and can end up
  as the \<^verbatim>\<open>latest\<close> tag.
\<close>

lemma main_js_created_is_a_version:
  "rewrite_with Some ''changed'' (Some 12) example_document =
     (True,
      \<lparr>obj_name = Some ''a'',
       obj_versions = Some [(''1.0.0'', ())],
       obj_time = Some [(''modified'', 99), (''created'', 10), (''1.0.0'', 10)],
       obj_dist_tags = Some [(''latest'', Some ''created'')]\<rparr>)"
  by (simp add: example_document_def rewriter_defs)

section \<open>The intercepting proxy (main.js)\<close>

text \<open>\<^verbatim>\<open>s.includes(sub)\<close> on strings, and \<^verbatim>\<open>/json/.test(x)\<close> on a header that may be missing.\<close>

fun js_includes :: "string \<Rightarrow> string \<Rightarrow> bool" where
  "js_includes [] sub = (sub = [])"
| "js_includes (c # cs) sub = (take (length sub) (c # cs) = sub \<or> js_includes cs sub)"

definition json_test :: "string option \<Rightarrow> bool" where
  "json_test x = (case x of None \<Rightarrow> False | Some s \<Rightarrow> js_includes s ''json'')"

text \<open>
  The inbound request as the handler reads it: the header object of Node (names in lower
  case), the method, the URL and whether the socket is encrypted.
\<close>

record request =
  req_headers :: "string object"
  req_method :: string
  req_url :: string
  req_encrypted :: bool

text \<open>
  \<^verbatim>\<open>upstreamRequestOptions\<close>. The \<^verbatim>\<open>metadata\<close> picked from the client socket options is
  passed on as it is and left out here.
\<close>

record upstream_request =
  opt_encrypted :: bool
  opt_headers :: "string object"
  opt_method :: string
  opt_host :: "string option"
  opt_port :: nat
  opt_path :: string
  opt_body :: string

text \<open>\<^verbatim>\<open>responseResult\<close>, and what is written to \<^verbatim>\<open>res\<close>: status code, headers, body bytes.\<close>

record response =
  statusCode :: nat
  headers :: "string object"
  body :: string

text \<open>
  \<^verbatim>\<open>req.headers.host.match(/^([^:]*)(?::(\d+))?/)\<close>: the first group is the text before the
  first colon, the second the digits that follow that colon. An empty group is falsy and
  leaves \<^verbatim>\<open>host\<close> or \<^verbatim>\<open>port\<close> undefined.
\<close>

definition is_digit :: "char \<Rightarrow> bool" where
  "is_digit c = (c \<in> set ''0123456789'')"

definition digit_value :: "char \<Rightarrow> nat" where
  "digit_value c = of_char c - of_char CHR ''0''"

text \<open>
  \<^verbatim>\<open>parseInt(s, 10)\<close> on a string that begins with a digit: the value of its leading
  digits. It is not used on other strings, where JavaScript returns \<^verbatim>\<open>NaN\<close>.
\<close>

definition parseInt :: "string \<Rightarrow> nat" where
  "parseInt ds = foldl (\<lambda>n c. 10 * n + digit_value c) 0 (takeWhile is_digit ds)"

definition host_of :: "string option \<Rightarrow> string option" where
  "host_of hostHeader =
     (case hostHeader of
        None \<Rightarrow> None
      | Some h \<Rightarrow> (let g = takeWhile (\<lambda>c. c \<noteq> CHR '':'') h in if g = [] then None else Some g))"

definition port_of :: "string option \<Rightarrow> nat option" where
  "port_of hostHeader =
     (case hostHeader of
        None \<Rightarrow> None
      | Some h \<Rightarrow>
          (case dropWhile (\<lambda>c. c \<noteq> CHR '':'') h of
             [] \<Rightarrow> None
           | colon # rest \<Rightarrow>
               (if takeWhile is_digit rest = [] then None else Some (parseInt rest))))"

text \<open>\<^verbatim>\<open>isRegistryHostname\<close> of the latest copy; the older copies compare with the first name only.\<close>

definition isRegistryHostname :: "string option \<Rightarrow> bool" where
  "isRegistryHostname hostname =
     (case hostname of
        None \<Rightarrow> False
      | Some h \<Rightarrow> h \<in> set [''registry.npmjs.org'', ''registry.yarnpkg.com''])"

text \<open>\<^verbatim>\<open>port: port || (req.socket.encrypted ? 443 : 80)\<close>\<close>

definition upstreamRequestOptions :: "request \<Rightarrow> string option \<Rightarrow> nat option \<Rightarrow> string object \<Rightarrow> string \<Rightarrow> upstream_request" where
  "upstreamRequestOptions req host port hs reqBody =
     \<lparr>opt_encrypted = req_encrypted req,
      opt_headers = hs,
      opt_method = req_method req,
      opt_host = host,
      opt_port = (case port of
                    None \<Rightarrow> (if req_encrypted req then 443 else 80)
                  | Some p \<Rightarrow> (if p = 0 then (if req_encrypted req then 443 else 80) else p)),
      opt_path = req_url req,
      opt_body = reqBody\<rparr>"

text \<open>
  The first half of the request handler, from the \<^verbatim>\<open>Host\<close> header to
  \<^verbatim>\<open>upstreamRequestOptions\<close>, in the latest copy of main.js. The result is
  \<^verbatim>\<open>couldBePackageMetadataRequest\<close> and the options of the upstream request. For a registry
  host the handler calls \<^verbatim>\<open>req.headers.accept.includes\<close>, which throws when the request
  has no \<^verbatim>\<open>Accept\<close> header.
\<close>

definition prepare_request :: "request \<Rightarrow> string \<Rightarrow> error + (bool \<times> upstream_request)" where
  "prepare_request req reqBody =
     (let host = host_of (map_of (req_headers req) ''host'');
          port = port_of (map_of (req_headers req) ''host'')
      in
        if isRegistryHostname host then
          (let hs = AList.delete ''connection''
                      (AList.delete ''if-none-match''
                        (AList.delete ''accept-encoding'' (req_headers req)))
           in
             case map_of hs ''accept'' of
               None \<Rightarrow> Inl TypeError
             | Some accept \<Rightarrow>
                 Inr (True,
                      upstreamRequestOptions req host port
                        (if js_includes accept ''application/vnd.npm.install-v1+json''
                         then AList.update ''accept'' ''application/json'' hs
                         else hs)
                        reqBody))
        else Inr (False, upstreamRequestOptions req host port (req_headers req) reqBody))"

text \<open>
  The same half in src/main.js and in the middle copy: only \<^verbatim>\<open>registry.npmjs.org\<close> is a
  registry host, and the \<^verbatim>\<open>Accept\<close> header is replaced only when the URL is \<^verbatim>\<open>/messy\<close>
  and the header is, to the letter, the one npm sends.
\<close>

definition prepare_request_main_js :: "request \<Rightarrow> string \<Rightarrow> error + (bool \<times> upstream_request)" where
  "prepare_request_main_js req reqBody =
     (let host = host_of (map_of (req_headers req) ''host'');
          port = port_of (map_of (req_headers req) ''host'')
      in
        if host = Some ''registry.npmjs.org'' then
          (let hs = AList.delete ''connection''
                      (AList.delete ''if-none-match''
                        (AList.delete ''accept-encoding'' (req_headers req)))
           in
             Inr (True,
                  upstreamRequestOptions req host port
                    (if req_url req = ''/messy''
                        \<and> map_of hs ''accept''
                            = Some ''application/vnd.npm.install-v1+json; q=1.0, application/json; q=0.8, */*''
                     then AList.update ''accept'' ''application/json'' hs
                     else hs)
                    reqBody))
        else Inr (False, upstreamRequestOptions req host port (req_headers req) reqBody))"

text \<open>
  What the response half of the handler takes from the runtime and the environment:
  \<^verbatim>\<open>new Date\<close> on a value of the time map, \<^verbatim>\<open>JSON.parse\<close> of the body bytes (\<open>None\<close>
  when it throws), \<^verbatim>\<open>Buffer.from(JSON.stringify(obj, undefined, '  '))\<close>,
  \<^verbatim>\<open>performRequest\<close> (\<open>None\<close> when the promise rejects) and the cutoff read from
  \<^verbatim>\<open>NPM_BISECT_IGNORE_NEWER_THAN\<close>.
\<close>

record ('v, 'p, 'z) runtime =
  rt_parseDate :: "'v \<Rightarrow> date"
  rt_JSON_parse :: "string \<Rightarrow> ('v, 'p, 'z) package_metadata_scheme option"
  rt_JSON_stringify :: "('v, 'p, 'z) package_metadata_scheme \<Rightarrow> string"
  rt_performRequest :: "upstream_request \<Rightarrow> response option"
  rt_ignoreNewerThan :: date

text \<open>\<^verbatim>\<open>String(n)\<close> for a length: the decimal digits of \<open>n\<close>.\<close>

definition digit_char :: "nat \<Rightarrow> char" where
  "digit_char d = ''0123456789'' ! d"

fun String_of :: "nat \<Rightarrow> string" where
  "String_of n = (if n < 10 then [digit_char n] else String_of (n div 10) @ [digit_char (n mod 10)])"

declare String_of.simps [simp del]

text \<open>
  \<^verbatim>\<open>let timeByVersion = obj.time\<close>, and when the document has no time map and the
  \<^verbatim>\<open>Accept\<close> header of the upstream request still names the compact variant, the second
  request for the full document and its \<^verbatim>\<open>time\<close>.
\<close>

definition timeByVersion_for ::
  "('v, 'p, 'z) runtime \<Rightarrow> upstream_request \<Rightarrow> ('v, 'p, 'z) package_metadata_scheme
     \<Rightarrow> error + 'v object option" where
  "timeByVersion_for rt opts obj =
     (case obj_time obj of
        Some t \<Rightarrow> Inr (Some t)
      | None \<Rightarrow>
          (case map_of (opt_headers opts) ''accept'' of
             None \<Rightarrow> Inr None
           | Some accept \<Rightarrow>
               (if accept \<noteq> [] \<and> js_includes accept ''application/vnd.npm.install-v1+json'' then
                  (case rt_performRequest rt
                          (opts\<lparr>opt_headers :=
                                  AList.update ''accept'' ''application/json'' (opt_headers opts)\<rparr>) of
                     None \<Rightarrow> Inl RequestFailed
                   | Some fullMetadataResult \<Rightarrow>
                       (case rt_JSON_parse rt (body fullMetadataResult) of
                          None \<Rightarrow> Inl SyntaxError
                        | Some full \<Rightarrow> Inr (obj_time full)))
                else Inr None)))"

text \<open>
  The part of the \<^verbatim>\<open>setImmediate\<close> callback that runs the rewriter. \<open>remove\<close> is the copy of
  \<^verbatim>\<open>removeVersionsFromPackageMetadata\<close> in use. The result is \<open>None\<close> when the response is
  not taken for package metadata, and otherwise \<^verbatim>\<open>changesMade\<close> (here \<open>changed\<close>) with the document as the
  rewriter left it. \<^verbatim>\<open>timeByVersion\<close> is the \<^verbatim>\<open>time\<close> object of the document itself
  unless it came from the second request. The \<^verbatim>\<open>updateTimeline\<close> call of the later copies
  only appends to the module's timeline array and is left out.
\<close>

definition rewritten_metadata ::
  "(('v \<Rightarrow> date) \<Rightarrow> date \<Rightarrow> ('v, 'p, 'z) package_metadata_scheme \<Rightarrow> 'v object option
      \<Rightarrow> bool \<times> ('v, 'p, 'z) package_metadata_scheme \<times> 'v object option)
   \<Rightarrow> ('v, 'p, 'z) runtime \<Rightarrow> bool \<Rightarrow> upstream_request \<Rightarrow> response
   \<Rightarrow> error + (bool \<times> ('v, 'p, 'z) package_metadata_scheme) option" where
  "rewritten_metadata remove rt couldBePackageMetadataRequest opts responseResult =
     (if couldBePackageMetadataRequest
         \<and> json_test (map_of (headers responseResult) ''content-type'') then
        (case rt_JSON_parse rt (body responseResult) of
           None \<Rightarrow> Inl SyntaxError
         | Some obj \<Rightarrow>
             (case timeByVersion_for rt opts obj of
                Inl e \<Rightarrow> Inl e
              | Inr tbv \<Rightarrow>
                  (case remove (rt_parseDate rt) (rt_ignoreNewerThan rt) obj tbv of
                     (changed, obj', tbv') \<Rightarrow>
                       Inr (Some (changed,
                                  if obj_time obj = None then obj' else obj'\<lparr>obj_time := tbv'\<rparr>)))))
      else Inr None)"

text \<open>The edits to \<^verbatim>\<open>responseResult\<close> under \<^verbatim>\<open>if (changesMade)\<close>.\<close>

definition patch_response ::
  "('v, 'p, 'z) runtime \<Rightarrow> ('v, 'p, 'z) package_metadata_scheme \<Rightarrow> response \<Rightarrow> response" where
  "patch_response rt obj responseResult =
     (let newBody = rt_JSON_stringify rt obj in
      responseResult
        \<lparr>body := newBody,
         headers :=
           AList.update ''connection'' ''close''
             (AList.delete ''content-encoding''
               (AList.delete ''transfer-encoding''
                 (AList.update ''content-length'' (String_of (length newBody))
                   (headers responseResult))))\<rparr>)"

text \<open>
  \<^verbatim>\<open>res.statusCode = ...\<close>, \<^verbatim>\<open>res.setHeader\<close> for every key of the header object, and
  \<^verbatim>\<open>res.end(body)\<close>: the response the client gets.
\<close>

definition write_response :: "response \<Rightarrow> response" where
  "write_response responseResult =
     \<lparr>statusCode = statusCode responseResult,
      headers =
        fold (\<lambda>headerName res.
                case map_of (headers responseResult) headerName of
                  None \<Rightarrow> res
                | Some v \<Rightarrow> AList.update headerName v res)
          (map fst (headers responseResult)) [],
      body = body responseResult\<rparr>"

text \<open>The whole \<^verbatim>\<open>setImmediate\<close> callback.\<close>

definition respond ::
  "(('v \<Rightarrow> date) \<Rightarrow> date \<Rightarrow> ('v, 'p, 'z) package_metadata_scheme \<Rightarrow> 'v object option
      \<Rightarrow> bool \<times> ('v, 'p, 'z) package_metadata_scheme \<times> 'v object option)
   \<Rightarrow> ('v, 'p, 'z) runtime \<Rightarrow> bool \<Rightarrow> upstream_request \<Rightarrow> response \<Rightarrow> error + response" where
  "respond remove rt couldBePackageMetadataRequest opts responseResult =
     (case rewritten_metadata remove rt couldBePackageMetadataRequest opts responseResult of
        Inl e \<Rightarrow> Inl e
      | Inr None \<Rightarrow> Inr (write_response responseResult)
      | Inr (Some (changed, obj)) \<Rightarrow>
          Inr (write_response
                 (if changed then patch_response rt obj responseResult else responseResult)))"

text \<open>
  The request handler from the request to the response: the two halves around the upstream
  request. \<open>reqBody\<close> is the request body the handler has read first.
\<close>

definition handle_request_with ::
  "(request \<Rightarrow> string \<Rightarrow> error + (bool \<times> upstream_request))
   \<Rightarrow> (('v \<Rightarrow> date) \<Rightarrow> date \<Rightarrow> ('v, 'p, 'z) package_metadata_scheme \<Rightarrow> 'v object option
      \<Rightarrow> bool \<times> ('v, 'p, 'z) package_metadata_scheme \<times> 'v object option)
   \<Rightarrow> ('v, 'p, 'z) runtime \<Rightarrow> request \<Rightarrow> string \<Rightarrow> error + response" where
  "handle_request_with prepare remove rt req reqBody =
     (case prepare req reqBody of
        Inl e \<Rightarrow> Inl e
      | Inr (couldBePackageMetadataRequest, opts) \<Rightarrow>
          (case rt_performRequest rt opts of
             None \<Rightarrow> Inl RequestFailed
           | Some responseResult \<Rightarrow>
               respond remove rt couldBePackageMetadataRequest opts responseResult))"

text \<open>The handler of the latest copy of main.js, and the one of src/main.js.\<close>

definition handle_request ::
  "('v, 'p, 'z) runtime \<Rightarrow> request \<Rightarrow> string \<Rightarrow> error + response" where
  "handle_request = handle_request_with prepare_request removeVersionsFromPackageMetadata"

definition handle_request_main_js ::
  "('v, 'p, 'z) runtime \<Rightarrow> request \<Rightarrow> string \<Rightarrow> error + response" where
  "handle_request_main_js =
     handle_request_with prepare_request_main_js removeVersionsFromPackageMetadata_main_js"

text \<open>
  A runtime for the examples: the body \<open>''<full>''\<close> parses to \<open>example_document\<close>, the
  rewritten document serializes to \<open>''<cut>''\<close>, and no second request succeeds.
\<close>

definition example_runtime :: "date \<Rightarrow> (int, unit, unit) runtime" where
  "example_runtime cutoff =
     \<lparr>rt_parseDate = Some,
      rt_JSON_parse = (\<lambda>s. if s = ''<full>'' then Some example_document else None),
      rt_JSON_stringify = (\<lambda>d. if d = example_rewritten then ''<cut>'' else ''<other>''),
      rt_performRequest = (\<lambda>opts. None),
      rt_ignoreNewerThan = cutoff\<rparr>"

definition example_options :: upstream_request where
  "example_options =
     \<lparr>opt_encrypted = True,
      opt_headers = [(''host'', ''registry.npmjs.org''), (''accept'', ''application/json'')],
      opt_method = ''GET'', opt_host = Some ''registry.npmjs.org'', opt_port = 443,
      opt_path = ''/a'', opt_body = []\<rparr>"

definition example_response :: response where
  "example_response =
     \<lparr>statusCode = 200,
      headers = [(''content-type'', ''application/json''), (''content-length'', ''6''),
                 (''content-encoding'', ''identity'')],
      body = ''<full>''\<rparr>"

lemma String_of_digits: "set (String_of n) \<subseteq> set ''0123456789''"
proof (induction n rule: String_of.induct)
  case (1 n)
  have d: "digit_char k \<in> set ''0123456789''" if "k < 10" for k
    unfolding digit_char_def using that by (intro nth_mem) simp
  show ?case
  proof (cases "n < 10")
    case True
    then show ?thesis using d [of n] by (subst String_of.simps) simp
  next
    case False
    with 1 d [of "n mod 10"] show ?thesis by (subst String_of.simps) simp
  qed
qed

lemma digit_char_value: "d < 10 \<Longrightarrow> digit_value (digit_char d) = d"
proof -
  assume "d < 10"
  then have "d = 0 \<or> d = 1 \<or> d = 2 \<or> d = 3 \<or> d = 4 \<or> d = 5 \<or> d = 6 \<or> d = 7 \<or> d = 8 \<or> d = 9"
    by arith
  then show ?thesis
    by (elim disjE) (simp_all add: digit_value_def digit_char_def)
qed

lemma String_of_is_digit: "c \<in> set (String_of n) \<Longrightarrow> is_digit c"
  unfolding is_digit_def using String_of_digits [of n] by (rule subsetD)

lemma String_of_all_digits: "takeWhile is_digit (String_of n) = String_of n"
  unfolding takeWhile_eq_all_conv using String_of_is_digit by blast

lemma foldl_String_of:
  "foldl (\<lambda>n c. 10 * n + digit_value c) 0 (String_of n) = n"
proof (induction n rule: String_of.induct)
  case (1 n)
  show ?case
  proof (cases "n < 10")
    case True
    then show ?thesis by (subst String_of.simps) (simp add: digit_char_value)
  next
    case False
    with 1 show ?thesis by (subst String_of.simps) (simp add: digit_char_value)
  qed
qed

lemma parseInt_String_of: "parseInt (String_of n) = n"
  by (simp add: parseInt_def String_of_all_digits foldl_String_of)

lemma fold_setHeader_map_of:
  "map_of (fold (\<lambda>headerName res. case map_of hs headerName of None \<Rightarrow> res
                                     | Some v \<Rightarrow> AList.update headerName v res) ks acc) k =
     (if k \<in> set ks \<and> map_of hs k \<noteq> None then map_of hs k else map_of acc k)"
  by (induction ks arbitrary: acc) (auto simp: update_conv' split: option.splits)

lemma keys_iff_map_of: "k \<in> fst ` set al \<longleftrightarrow> map_of al k \<noteq> None"
  by (simp add: map_of_eq_None_iff)

lemma write_response_map_of: "map_of (headers (write_response rr)) = map_of (headers rr)"
proof
  fix k
  show "map_of (headers (write_response rr)) k = map_of (headers rr) k"
    unfolding write_response_def
    by (simp add: fold_setHeader_map_of keys_iff_map_of)
qed

lemma write_response_keys: "fst ` set (headers (write_response rr)) = fst ` set (headers rr)"
proof -
  have "k \<in> fst ` set (headers (write_response rr)) \<longleftrightarrow> k \<in> fst ` set (headers rr)" for k
    unfolding keys_iff_map_of write_response_map_of ..
  then show ?thesis by blast
qed

lemma update_fresh: "k \<notin> fst ` set al \<Longrightarrow> AList.update k v al = al @ [(k, v)]"
  by (induction al) auto

lemma fold_setHeader_distinct:
  "distinct (map fst (acc @ ys)) \<Longrightarrow> \<forall>(k, v) \<in> set ys. map_of hs k = Some v \<Longrightarrow>
     fold (\<lambda>headerName res. case map_of hs headerName of None \<Rightarrow> res
                               | Some v \<Rightarrow> AList.update headerName v res) (map fst ys) acc
       = acc @ ys"
proof (induction ys arbitrary: acc)
  case Nil
  show ?case by simp
next
  case (Cons y ys)
  obtain k v where y: "y = (k, v)" by (cases y)
  from Cons.prems y have k: "k \<notin> fst ` set acc" and m: "map_of hs k = Some v" by auto
  from Cons.prems y have "distinct (map fst ((acc @ [(k, v)]) @ ys))" by simp
  moreover from Cons.prems have "\<forall>(k, v) \<in> set ys. map_of hs k = Some v" by simp
  ultimately show ?case
    using Cons.IH [of "acc @ [(k, v)]"] by (simp add: y m update_fresh [OF k])
qed

lemma write_response_distinct:
  assumes "distinct (map fst (headers rr))"
  shows "write_response rr = rr"
proof -
  have "\<forall>(k, v) \<in> set (headers rr). map_of (headers rr) k = Some v"
    using assms by auto
  with assms have "headers (write_response rr) = headers rr"
    unfolding write_response_def using fold_setHeader_distinct [of "[]" "headers rr" "headers rr"]
    by simp
  then show ?thesis by (simp add: write_response_def)
qed

lemma keys_delete: "fst ` set (AList.delete k al) = fst ` set al - {k}"
  by (force simp: AList.delete_eq)

lemma patch_response_content_length:
  "map_of (headers (patch_response rt obj rr)) ''content-length''
     = Some (String_of (length (rt_JSON_stringify rt obj)))"
  by (simp add: patch_response_def Let_def update_conv' delete_conv')

lemma patch_response_encodings:
  "''transfer-encoding'' \<notin> fst ` set (headers (patch_response rt obj rr))"
  "''content-encoding'' \<notin> fst ` set (headers (patch_response rt obj rr))"
  by (simp_all add: patch_response_def Let_def dom_update keys_delete)

lemma patch_response_rest:
  "map_of (headers (patch_response rt obj rr)) ''connection'' = Some ''close''"
  "body (patch_response rt obj rr) = rt_JSON_stringify rt obj"
  "statusCode (patch_response rt obj rr) = statusCode rr"
  by (simp_all add: patch_response_def Let_def update_conv')

lemma example_rewritten_metadata:
  "rewritten_metadata removeVersionsFromPackageMetadata (example_runtime (Some 20)) True
     example_options example_response = Inr (Some (True, example_rewritten))"
  "rewritten_metadata removeVersionsFromPackageMetadata (example_runtime (Some 40)) True
     example_options example_response = Inr (Some (False, example_document))"
  by (simp_all add: rewritten_metadata_def example_runtime_def example_response_def json_test_def
      timeByVersion_for_def example_document_def example_rewritten_def rewriter_defs)

subsection \<open>What the proxy forwards\<close>

text \<open>
  C8. When the rewriter reports a change, the response written to the client carries the
  re-serialized document as its body, its \<^verbatim>\<open>content-length\<close> header is the decimal
  rendering of the byte length of exactly that body (and reads back as that number), and it
  has no \<^verbatim>\<open>transfer-encoding\<close> and no \<^verbatim>\<open>content-encoding\<close> header. Header names are the
  lower-case names of Node's header object. This holds for either copy of the rewriter.
\<close>

theorem changed_response_headers:
  assumes "rewritten_metadata remove rt couldBePackageMetadataRequest opts responseResult
             = Inr (Some (True, obj))"
  shows "\<exists>res. respond remove rt couldBePackageMetadataRequest opts responseResult = Inr res
       \<and> body res = rt_JSON_stringify rt obj
       \<and> map_of (headers res) ''content-length'' = Some (String_of (length (body res)))
       \<and> parseInt (String_of (length (body res))) = length (body res)
       \<and> ''transfer-encoding'' \<notin> fst ` set (headers res)
       \<and> ''content-encoding'' \<notin> fst ` set (headers res)"
proof -
  let ?res = "write_response (patch_response rt obj responseResult)"
  have "respond remove rt couldBePackageMetadataRequest opts responseResult = Inr ?res"
    by (simp add: respond_def assms)
  moreover have "body ?res = rt_JSON_stringify rt obj"
    by (simp add: write_response_def patch_response_rest)
  moreover have "map_of (headers ?res) ''content-length'' = Some (String_of (length (body ?res)))"
    unfolding write_response_map_of patch_response_content_length
    by (simp add: write_response_def patch_response_rest)
  moreover have "''transfer-encoding'' \<notin> fst ` set (headers ?res)"
    "''content-encoding'' \<notin> fst ` set (headers ?res)"
    unfolding write_response_keys by (rule patch_response_encodings)+
  ultimately show ?thesis
    using parseInt_String_of by blast
qed

theorem changed_response_headers_witness:
  "respond removeVersionsFromPackageMetadata (example_runtime (Some 20)) True
     example_options example_response
   = Inr \<lparr>statusCode = 200,
          headers = [(''content-type'', ''application/json''), (''content-length'', ''5''),
                     (''connection'', ''close'')],
          body = ''<cut>''\<rparr>
   \<and> parseInt (String_of (length ''<cut>'')) = length ''<cut>''"
proof -
  have r: "respond removeVersionsFromPackageMetadata (example_runtime (Some 20)) True
        example_options example_response
      = Inr (write_response
              (patch_response (example_runtime (Some 20)) example_rewritten example_response))"
    by (simp add: respond_def example_rewritten_metadata)
  have e: "write_response
        (patch_response (example_runtime (Some 20)) example_rewritten example_response)
      = \<lparr>statusCode = 200,
          headers = [(''content-type'', ''application/json''), (''content-length'', ''5''),
                     (''connection'', ''close'')],
          body = ''<cut>''\<rparr>"
    by (simp add: write_response_def patch_response_def example_response_def example_runtime_def
        String_of.simps digit_char_def)
  from changed_response_headers [OF example_rewritten_metadata(1)]
  obtain res where a: "respond removeVersionsFromPackageMetadata (example_runtime (Some 20)) True
        example_options example_response = Inr res"
    and b: "parseInt (String_of (length (body res))) = length (body res)"
    by blast
  from a r e have "body res = ''<cut>''" by auto
  with b have "parseInt (String_of (length ''<cut>'')) = length ''<cut>''" by simp
  with r e show ?thesis by simp
qed

text \<open>
  C10. When the rewriter reports no change, the client gets the status code, the headers and
  the body bytes of the upstream response as they came: the body is not serialized again and
  every header, \<^verbatim>\<open>content-length\<close>, \<^verbatim>\<open>transfer-encoding\<close>, \<^verbatim>\<open>content-encoding\<close> and
  \<^verbatim>\<open>connection\<close> among them, has the value it had. With the distinct keys of a JavaScript
  object the response is the upstream response itself.
\<close>

theorem unchanged_response_forwarded:
  assumes "rewritten_metadata remove rt couldBePackageMetadataRequest opts responseResult
             = Inr (Some (False, obj))"
  shows "\<exists>res. respond remove rt couldBePackageMetadataRequest opts responseResult = Inr res
       \<and> statusCode res = statusCode responseResult
       \<and> body res = body responseResult
       \<and> map_of (headers res) = map_of (headers responseResult)
       \<and> (distinct (map fst (headers responseResult)) \<longrightarrow> res = responseResult)"
proof -
  have "respond remove rt couldBePackageMetadataRequest opts responseResult
      = Inr (write_response responseResult)"
    by (simp add: respond_def assms)
  moreover have "statusCode (write_response responseResult) = statusCode responseResult"
    "body (write_response responseResult) = body responseResult"
    by (simp_all add: write_response_def)
  ultimately show ?thesis
    using write_response_map_of [of responseResult] write_response_distinct [of responseResult]
    by blast
qed

theorem unchanged_response_forwarded_witness:
  "distinct (map fst (headers example_response))
   \<and> respond removeVersionsFromPackageMetadata (example_runtime (Some 40)) True
       example_options example_response
     = Inr \<lparr>statusCode = 200,
          headers = [(''content-type'', ''application/json''), (''content-length'', ''6''),
                     (''content-encoding'', ''identity'')],
          body = ''<full>''\<rparr>"
proof -
  have d: "distinct (map fst (headers example_response))"
    by (simp add: example_response_def)
  from unchanged_response_forwarded [OF example_rewritten_metadata(2)] d
  have "respond removeVersionsFromPackageMetadata (example_runtime (Some 40)) True
       example_options example_response = Inr example_response"
    by auto
  with d show ?thesis by (simp add: example_response_def)
qed

subsection \<open>The Accept header of the upstream request\<close>

text \<open>
  In the latest copy of main.js a request to a registry host whose \<^verbatim>\<open>Accept\<close> header
  names the compact variant goes upstream with \<^verbatim>\<open>Accept: application/json\<close>, whatever its
  path.
\<close>

lemma compact_accept_rewritten:
  assumes "isRegistryHostname (host_of (map_of (req_headers req) ''host''))"
    and "map_of (req_headers req) ''accept'' = Some accept"
    and "js_includes accept ''application/vnd.npm.install-v1+json''"
  shows "\<exists>opts. prepare_request req reqBody = Inr (True, opts)
       \<and> map_of (opt_headers opts) ''accept'' = Some ''application/json''
       \<and> opt_path opts = req_url req"
  using assms
  by (simp add: prepare_request_def Let_def upstreamRequestOptions_def delete_conv' update_conv')

text \<open>
  C4 does not hold of src/main.js and of the middle copy: a request for \<^verbatim>\<open>/lodash\<close> with
  the \<^verbatim>\<open>Accept\<close> header npm sends for package metadata goes upstream with that header
  unchanged, because the replacement is tied to the path \<^verbatim>\<open>/messy\<close>.
\<close>

theorem main_js_keeps_compact_accept:
  "prepare_request_main_js
     \<lparr>req_headers = [(''host'', ''registry.npmjs.org''),
                     (''accept'', ''application/vnd.npm.install-v1+json; q=1.0, application/json; q=0.8, */*'')],
      req_method = ''GET'', req_url = ''/lodash'', req_encrypted = True\<rparr> []
   = Inr (True,
          \<lparr>opt_encrypted = True,
           opt_headers = [(''host'', ''registry.npmjs.org''),
                          (''accept'', ''application/vnd.npm.install-v1+json; q=1.0, application/json; q=0.8, */*'')],
           opt_method = ''GET'', opt_host = Some ''registry.npmjs.org'', opt_port = 443,
           opt_path = ''/lodash'', opt_body = []\<rparr>)
   \<and> js_includes ''application/vnd.npm.install-v1+json; q=1.0, application/json; q=0.8, */*''
         ''application/vnd.npm.install-v1+json''"
  by (simp add: prepare_request_main_js_def upstreamRequestOptions_def host_of_def port_of_def)

section \<open>The filters of the driver (--ignore and --only)\<close>

text \<open>The result of \<^verbatim>\<open>parsePackageAndVersionRange\<close>: \<^verbatim>\<open>{ packageName, versionRange }\<close>.\<close>

record package_spec =
  spec_packageName :: string
  versionRange :: string

text \<open>
  The characters that \<^verbatim>\<open>.\<close> of a regular expression does not match. Strings are byte
  strings here, so of the four line terminators of JavaScript only line feed and carriage
  return are characters.
\<close>

definition line_terminator :: "char \<Rightarrow> bool" where
  "line_terminator c = (c = CHR 0x0A \<or> c = CHR 0x0D)"

text \<open>
  \<^verbatim>\<open>packageName.match(/^([^@]+)@(.+)$/)\<close>: the first group is the text before the first
  \<^verbatim>\<open>@\<close> and must not be empty; the second group is all that follows that \<^verbatim>\<open>@\<close>, and
  must be non-empty and free of line terminators. Without a match the whole argument is the
  package name and the range stays \<^verbatim>\<open>'*'\<close>.
\<close>

definition parsePackageAndVersionRange :: "string \<Rightarrow> package_spec" where
  "parsePackageAndVersionRange arg =
     (let name = takeWhile (\<lambda>c. c \<noteq> CHR ''@'') arg;
          rest = dropWhile (\<lambda>c. c \<noteq> CHR ''@'') arg
      in
        if name \<noteq> [] \<and> rest \<noteq> [] \<and> tl rest \<noteq> []
           \<and> list_all (\<lambda>c. \<not> line_terminator c) (tl rest)
        then \<lparr>spec_packageName = name, versionRange = tl rest\<rparr>
        else \<lparr>spec_packageName = arg, versionRange = ''*''\<rparr>)"

text \<open>
  \<^verbatim>\<open>matchesPackageSpec(event, spec)\<close>; \<open>satisfies\<close> is \<^verbatim>\<open>semver.satisfies\<close> of the semver
  package.
\<close>

definition matchesPackageSpec ::
  "(string \<Rightarrow> string \<Rightarrow> bool) \<Rightarrow> event \<Rightarrow> package_spec \<Rightarrow> bool" where
  "matchesPackageSpec satisfies ev spec =
     (packageName ev = spec_packageName spec \<and> satisfies (version ev) (versionRange spec))"

text \<open>
  The two filters on the timeline: with \<^verbatim>\<open>--only\<close> entries an event stays when some entry
  matches it, and an event that some \<^verbatim>\<open>--ignore\<close> entry matches is dropped.
\<close>

definition only_filter :: "(string \<Rightarrow> string \<Rightarrow> bool) \<Rightarrow> string list \<Rightarrow> event list \<Rightarrow> event list" where
  "only_filter satisfies only timeline =
     (if length only > 0 then
        (let onlySpecs = map parsePackageAndVersionRange only in
         filter (\<lambda>ev. list_ex (\<lambda>spec. matchesPackageSpec satisfies ev spec) onlySpecs) timeline)
      else timeline)"

definition ignore_filter :: "(string \<Rightarrow> string \<Rightarrow> bool) \<Rightarrow> string list \<Rightarrow> event list \<Rightarrow> event list" where
  "ignore_filter satisfies ignore timeline =
     (let ignoreSpecs = map parsePackageAndVersionRange ignore in
      filter (\<lambda>ev. \<not> list_ex (\<lambda>spec. matchesPackageSpec satisfies ev spec) ignoreSpecs) timeline)"

text \<open>
  For a package name without \<^verbatim>\<open>@\<close> the entry \<^verbatim>\<open>name\<close> or \<^verbatim>\<open>name@range\<close> matches an event
  exactly when the names are equal and the version satisfies the range.
\<close>

lemma parse_name_only:
  "CHR ''@'' \<notin> set arg \<Longrightarrow>
     parsePackageAndVersionRange arg = \<lparr>spec_packageName = arg, versionRange = ''*''\<rparr>"
  by (simp add: parsePackageAndVersionRange_def Let_def dropWhile_eq_Nil_conv)

lemma parse_name_and_range:
  assumes "name \<noteq> []" and "CHR ''@'' \<notin> set name" and "rng \<noteq> []"
    and "list_all (\<lambda>c. \<not> line_terminator c) rng"
  shows "parsePackageAndVersionRange (name @ CHR ''@'' # rng)
       = \<lparr>spec_packageName = name, versionRange = rng\<rparr>"
proof -
  have "takeWhile (\<lambda>c. c \<noteq> CHR ''@'') (name @ CHR ''@'' # rng) = name"
    using assms(2) by (subst takeWhile_append2) auto
  moreover have "dropWhile (\<lambda>c. c \<noteq> CHR ''@'') (name @ CHR ''@'' # rng) = CHR ''@'' # rng"
    using assms(2) by (subst dropWhile_append2) auto
  ultimately show ?thesis
    using assms by (simp add: parsePackageAndVersionRange_def Let_def)
qed

lemma unscoped_entry_matches:
  assumes "name \<noteq> []" and "CHR ''@'' \<notin> set name" and "rng \<noteq> []"
    and "list_all (\<lambda>c. \<not> line_terminator c) rng"
  shows "matchesPackageSpec satisfies ev (parsePackageAndVersionRange (name @ CHR ''@'' # rng))
           = (packageName ev = name \<and> satisfies (version ev) rng)"
    and "matchesPackageSpec satisfies ev (parsePackageAndVersionRange name)
           = (packageName ev = name \<and> satisfies (version ev) ''*'')"
  using assms by (simp_all add: matchesPackageSpec_def parse_name_and_range parse_name_only)

text \<open>
  C9 does not hold of the code for a scoped package name followed by a range: the regular
  expression wants at least one character before the first \<^verbatim>\<open>@\<close>, so the entry
  \<^verbatim>\<open>@babel/core@^7.0.0\<close> is not split, its whole text becomes the package name, and it
  matches no event of the package \<^verbatim>\<open>@babel/core\<close>, not even under a \<^verbatim>\<open>satisfies\<close> that
  accepts everything. Given to \<^verbatim>\<open>--ignore\<close> the entry drops nothing, given to \<^verbatim>\<open>--only\<close> it
  drops every event.
\<close>

theorem scoped_entry_with_range_not_split:
  "parsePackageAndVersionRange ''@babel/core@^7.0.0''
     = \<lparr>spec_packageName = ''@babel/core@^7.0.0'', versionRange = ''*''\<rparr>
   \<and> \<not> matchesPackageSpec (\<lambda>ver rng. True)
         \<lparr>packageName = ''@babel/core'', version = ''7.1.0'', time = 0\<rparr>
         (parsePackageAndVersionRange ''@babel/core@^7.0.0'')
   \<and> ignore_filter (\<lambda>ver rng. True) [''@babel/core@^7.0.0'']
         [\<lparr>packageName = ''@babel/core'', version = ''7.1.0'', time = 0\<rparr>]
       = [\<lparr>packageName = ''@babel/core'', version = ''7.1.0'', time = 0\<rparr>]
   \<and> only_filter (\<lambda>ver rng. True) [''@babel/core@^7.0.0'']
         [\<lparr>packageName = ''@babel/core'', version = ''7.1.0'', time = 0\<rparr>]
       = []"
  by (simp add: parsePackageAndVersionRange_def matchesPackageSpec_def ignore_filter_def
      only_filter_def)

end
